theory Spec2Isabelle
  imports Complex_Main "HOL-Library.Multiset" "HOL-Library.Char_ord" "HOL-Library.List_Lexorder"
begin

section \<open>Data model of \<^verbatim>\<open>multi.py\<close>\<close>

text \<open>
  Symptoms and diseases are Python strings. The catalog \<^verbatim>\<open>disease_symptoms\<close> is a dict
  from disease names to sets of symptoms; it is modelled by the list of its items in
  insertion order (the order in which \<^verbatim>\<open>.items()\<close> and \<^verbatim>\<open>.values()\<close> iterate). Python
  floats are idealised as real numbers; Python sets are HOL sets (finite in every
  run of the program).
\<close>

type_synonym symptom = string
type_synonym disease = string
type_synonym catalog = "(disease \<times> symptom set) list"

text \<open>The exceptions the program can raise, with the message of a \<^verbatim>\<open>ValueError\<close>.\<close>

datatype error = ValueError string | ZeroDivisionError

text \<open>
  The order in which the interpreter iterates over a set is not fixed by the source
  (for strings it depends on the hash seed of the process). It is a parameter of the
  model: \<open>it S\<close> is the list \<^verbatim>\<open>list(S)\<close>. All that is known of it is that it enumerates
  the set without repetition.
\<close>

type_synonym iteration = "symptom set \<Rightarrow> symptom list"

definition iter_ok :: "iteration \<Rightarrow> bool" where
  "iter_ok it = (\<forall>S. finite S \<longrightarrow> set (it S) = S \<and> distinct (it S))"


text \<open>
  The class \<^verbatim>\<open>DiagnosticSystem\<close> and its constructor:
  \<^verbatim>\<open>self.all_symptoms = set().union(*disease_symptoms.values())\<close>.
\<close>

record DiagnosticSystem =
  disease_symptoms :: catalog
  all_symptoms :: "symptom set"

definition DiagnosticSystem_init :: "catalog \<Rightarrow> DiagnosticSystem" where
  "DiagnosticSystem_init ds =
     \<lparr>disease_symptoms = ds, all_symptoms = foldl (\<union>) {} (map snd ds)\<rparr>"

subsection \<open>Exceptions as values\<close>

definition ebind :: "error + 'a \<Rightarrow> ('a \<Rightarrow> error + 'b) \<Rightarrow> error + 'b" where
  "ebind m f = (case m of Inl e \<Rightarrow> Inl e | Inr x \<Rightarrow> f x)"

text \<open>Float division and \<^verbatim>\<open>math.log2\<close>, with the exceptions Python raises.\<close>

definition py_div :: "real \<Rightarrow> real \<Rightarrow> error + real" where
  "py_div a b = (if b = 0 then Inl ZeroDivisionError else Inr (a / b))"

definition py_log2 :: "real \<Rightarrow> error + real" where
  "py_log2 x = (if x \<le> 0 then Inl (ValueError ''math domain error'') else Inr (log 2 x))"

text \<open>A list comprehension over a function that may raise: left to right, the first
  exception ends it.\<close>

fun map_err :: "('a \<Rightarrow> error + 'b) \<Rightarrow> 'a list \<Rightarrow> error + 'b list" where
  "map_err f [] = Inr []"
| "map_err f (x # xs) = ebind (f x) (\<lambda>y. ebind (map_err f xs) (\<lambda>ys. Inr (y # ys)))"

section \<open>Candidate diseases\<close>

definition get_candidate_diseases :: "DiagnosticSystem \<Rightarrow> symptom set \<Rightarrow> catalog" where
  "get_candidate_diseases self current_symptoms =
     filter (\<lambda>(disease, symptoms). current_symptoms \<inter> symptoms \<noteq> {}) (disease_symptoms self)"

section \<open>The scoring functions\<close>

text \<open>
  \<^verbatim>\<open>_split_by_symptoms\<close>: the dict \<^verbatim>\<open>groups\<close> from membership tuples to lists of
  diseases, as the list of its items in insertion order.
\<close>

fun groups_append :: "bool list \<Rightarrow> disease \<Rightarrow> (bool list \<times> disease list) list
    \<Rightarrow> (bool list \<times> disease list) list" where
  "groups_append key d [] = [(key, [d])]"
| "groups_append key d ((k, ds) # rest) =
     (if k = key then (k, ds @ [d]) # rest else (k, ds) # groups_append key d rest)"

definition split_by_symptoms :: "iteration \<Rightarrow> symptom set \<Rightarrow> catalog \<Rightarrow> disease list list" where
  "split_by_symptoms it symptoms candidate_diseases =
     map snd (foldl (\<lambda>groups (disease, d_symptoms).
        groups_append (map (\<lambda>symptom. symptom \<in> d_symptoms) (it symptoms)) disease groups)
        [] candidate_diseases)"

text \<open>The loop of \<^verbatim>\<open>_calculate_total_information_gain\<close> over the subgroups.\<close>

fun conditional_entropy_loop :: "nat \<Rightarrow> disease list list \<Rightarrow> real \<Rightarrow> error + real" where
  "conditional_entropy_loop total_n [] conditional_entropy = Inr conditional_entropy"
| "conditional_entropy_loop total_n (subgroup # rest) conditional_entropy =
     ebind (py_div (real (length subgroup)) (real total_n)) (\<lambda>prob.
       if prob > 0
       then ebind (py_log2 prob) (\<lambda>l.
              conditional_entropy_loop total_n rest (conditional_entropy - prob * l))
       else conditional_entropy_loop total_n rest conditional_entropy)"

definition calculate_total_information_gain ::
    "iteration \<Rightarrow> symptom set \<Rightarrow> catalog \<Rightarrow> error + real" where
  "calculate_total_information_gain it symptoms candidate_diseases =
     (if length candidate_diseases = 0 then Inr 0
      else ebind (py_log2 (real (length candidate_diseases))) (\<lambda>initial_entropy.
        let subgroups = split_by_symptoms it symptoms candidate_diseases;
            total_n = length candidate_diseases
        in ebind (conditional_entropy_loop total_n subgroups 0) (\<lambda>conditional_entropy.
             Inr (initial_entropy - conditional_entropy))))"

text \<open>\<^verbatim>\<open>_calculate_coverage_score\<close>: the loop, then the guarded mean.\<close>

fun coverage_loop :: "symptom set \<Rightarrow> catalog \<Rightarrow> real \<Rightarrow> error + real" where
  "coverage_loop symptoms [] total_coverage = Inr total_coverage"
| "coverage_loop symptoms ((disease, d_symptoms) # rest) total_coverage =
     ebind (py_div (real (card (symptoms \<inter> d_symptoms))) (real (card d_symptoms)))
       (\<lambda>coverage. coverage_loop symptoms rest (total_coverage + coverage))"

definition calculate_coverage_score :: "symptom set \<Rightarrow> catalog \<Rightarrow> error + real" where
  "calculate_coverage_score symptoms candidate_diseases =
     ebind (coverage_loop symptoms candidate_diseases 0) (\<lambda>total_coverage.
       if candidate_diseases \<noteq> []
       then py_div total_coverage (real (length candidate_diseases))
       else Inr 0)"

text \<open>
  \<^verbatim>\<open>_calculate_mutual_information\<close>: the three counters over the values of the whole
  catalog, then the guarded quotient.
\<close>

definition mutual_information_counts :: "symptom \<Rightarrow> symptom \<Rightarrow> symptom set list \<Rightarrow> nat \<times> nat \<times> nat" where
  "mutual_information_counts symptom1 symptom2 vals =
     foldl (\<lambda>(count_both, count_s1, count_s2) symptoms.
        let has_s1 = symptom1 \<in> symptoms; has_s2 = symptom2 \<in> symptoms
        in (if has_s1 \<and> has_s2 then count_both + 1 else count_both,
            if has_s1 then count_s1 + 1 else count_s1,
            if has_s2 then count_s2 + 1 else count_s2))
       (0, 0, 0) vals"

definition calculate_mutual_information ::
    "DiagnosticSystem \<Rightarrow> symptom \<Rightarrow> symptom \<Rightarrow> error + real" where
  "calculate_mutual_information self symptom1 symptom2 =
     (case mutual_information_counts symptom1 symptom2 (map snd (disease_symptoms self)) of
        (count_both, count_s1, count_s2) \<Rightarrow>
          let total_n = length (disease_symptoms self) in
          if count_both = 0 then Inr 0
          else ebind (py_div (real count_both) (real total_n)) (\<lambda>p_both.
               ebind (py_div (real count_s1) (real total_n)) (\<lambda>p_s1.
               ebind (py_div (real count_s2) (real total_n)) (\<lambda>p_s2.
                 if p_both = 0 \<or> p_s1 = 0 \<or> p_s2 = 0 then Inr 0
                 else ebind (py_div p_both (p_s1 * p_s2)) (\<lambda>q.
                      ebind (py_log2 q) (\<lambda>l. Inr (p_both * l)))))))"

text \<open>\<^verbatim>\<open>itertools.combinations(xs, 2)\<close>, in its order of generation.\<close>

fun pairs :: "'a list \<Rightarrow> ('a \<times> 'a) list" where
  "pairs [] = []"
| "pairs (x # xs) = map (Pair x) xs @ pairs xs"

fun mutual_info_loop :: "DiagnosticSystem \<Rightarrow> (symptom \<times> symptom) list \<Rightarrow> real \<Rightarrow> error + real" where
  "mutual_info_loop self [] mutual_info = Inr mutual_info"
| "mutual_info_loop self ((s1, s2) # rest) mutual_info =
     ebind (calculate_mutual_information self s1 s2) (\<lambda>mi.
       mutual_info_loop self rest (mutual_info + mi))"

definition calculate_independence_score ::
    "DiagnosticSystem \<Rightarrow> iteration \<Rightarrow> symptom set \<Rightarrow> error + real" where
  "calculate_independence_score self it symptoms =
     (if card symptoms \<le> 1 then Inr 1
      else ebind (mutual_info_loop self (pairs (it symptoms)) 0) (\<lambda>mutual_info.
             py_div 1 (1 + mutual_info)))"

definition calculate_combined_score ::
    "DiagnosticSystem \<Rightarrow> iteration \<Rightarrow> symptom set \<Rightarrow> catalog \<Rightarrow> error + real" where
  "calculate_combined_score self it symptoms candidate_diseases =
     ebind (calculate_total_information_gain it symptoms candidate_diseases) (\<lambda>info_gain.
     ebind (calculate_coverage_score symptoms candidate_diseases) (\<lambda>coverage_score.
     ebind (calculate_independence_score self it symptoms) (\<lambda>independence_score.
       Inr (0.4 * info_gain + 0.4 * coverage_score + 0.2 * independence_score))))"

definition calculate_symptom_importance ::
    "DiagnosticSystem \<Rightarrow> iteration \<Rightarrow> symptom \<Rightarrow> symptom set \<Rightarrow> catalog \<Rightarrow> error + real" where
  "calculate_symptom_importance self it symptom current_symptoms candidate_diseases =
     calculate_combined_score self it (current_symptoms \<union> {symptom}) candidate_diseases"

section \<open>Match rates\<close>

text \<open>
  \<^verbatim>\<open>get_disease_match_scores\<close> fills the dict \<^verbatim>\<open>scores\<close> key by key; the division is
  guarded by \<^verbatim>\<open>total_count > 0\<close>.
\<close>

definition match_rate :: "symptom set \<Rightarrow> symptom set \<Rightarrow> real" where
  "match_rate current_symptoms symptoms =
     (let match_count = card (current_symptoms \<inter> symptoms); total_count = card symptoms
      in if total_count > 0 then real match_count / real total_count else 0)"

definition get_disease_match_scores :: "DiagnosticSystem \<Rightarrow> symptom set \<Rightarrow> (disease \<rightharpoonup> real)" where
  "get_disease_match_scores self current_symptoms =
     foldl (\<lambda>scores (disease, symptoms). scores(disease \<mapsto> match_rate current_symptoms symptoms))
       Map.empty (disease_symptoms self)"

section \<open>Selecting the best of a sequence\<close>

text \<open>
  \<^verbatim>\<open>sorted(xs, key=f, reverse=True)\<close> and \<^verbatim>\<open>xs.sort(key=f, reverse=True)\<close>: the keys are
  computed once, left to right; the sort is stable, also when reversed.
\<close>

definition sorted_by_key_desc :: "('a \<Rightarrow> error + real) \<Rightarrow> 'a list \<Rightarrow> error + 'a list" where
  "sorted_by_key_desc f xs =
     ebind (map_err f xs) (\<lambda>ks. Inr (map snd (sort_key (\<lambda>(k, x). - k) (zip ks xs))))"

text \<open>
  The loop that keeps the best of a sequence under a strict comparison, as written in
  \<^verbatim>\<open>_greedy_selection\<close> and \<^verbatim>\<open>_exhaustive_search\<close> and as the builtin \<^verbatim>\<open>max\<close> does:
  \<open>None\<close> stands for \<^verbatim>\<open>best_score = float('-inf')\<close> with \<^verbatim>\<open>best = None\<close>, which every
  score exceeds.
\<close>

fun best_scan :: "('a \<Rightarrow> error + real) \<Rightarrow> 'a list \<Rightarrow> (real \<times> 'a) option \<Rightarrow> error + (real \<times> 'a) option" where
  "best_scan f [] best = Inr best"
| "best_scan f (x # xs) best =
     ebind (f x) (\<lambda>score.
       if (case best of None \<Rightarrow> True | Some (best_score, b) \<Rightarrow> score > best_score)
       then best_scan f xs (Some (score, x))
       else best_scan f xs best)"

text \<open>The closure \<^verbatim>\<open>symptom_score\<close> of the greedy and the exhaustive selector.\<close>

definition symptom_score ::
    "DiagnosticSystem \<Rightarrow> iteration \<Rightarrow> symptom set \<Rightarrow> catalog \<Rightarrow> symptom set \<Rightarrow> symptom \<Rightarrow> error + real" where
  "symptom_score self it current_symptoms candidate_diseases denied_symptoms symptom =
     ebind (calculate_symptom_importance self it symptom current_symptoms candidate_diseases)
       (\<lambda>score. Inr (if symptom \<in> denied_symptoms then score * 0.5 else score))"

section \<open>The greedy selector\<close>

definition greedy_score ::
    "DiagnosticSystem \<Rightarrow> iteration \<Rightarrow> symptom set \<Rightarrow> catalog \<Rightarrow> symptom set \<Rightarrow> symptom set
      \<Rightarrow> symptom \<Rightarrow> error + real" where
  "greedy_score self it current_symptoms candidate_diseases denied_symptoms selected_symptoms symptom =
     (let temp_symptoms = current_symptoms \<union> selected_symptoms \<union> {symptom} in
      ebind (calculate_combined_score self it temp_symptoms candidate_diseases)
        (\<lambda>score. Inr (if symptom \<in> denied_symptoms then score * 0.5 else score)))"

text \<open>
  The loop \<^verbatim>\<open>for _ in range(n)\<close>. The test \<^verbatim>\<open>if best_symptom:\<close> is false for \<^verbatim>\<open>None\<close> and
  for the empty string.
\<close>

fun greedy_rounds ::
    "DiagnosticSystem \<Rightarrow> iteration \<Rightarrow> symptom set \<Rightarrow> catalog \<Rightarrow> symptom set \<Rightarrow> nat
      \<Rightarrow> symptom set \<Rightarrow> symptom list \<Rightarrow> error + (symptom set \<times> symptom list)" where
  "greedy_rounds self it cur cands denied 0 selected_symptoms symptoms_list =
     Inr (selected_symptoms, symptoms_list)"
| "greedy_rounds self it cur cands denied (Suc k) selected_symptoms symptoms_list =
     (if symptoms_list = [] then Inr (selected_symptoms, symptoms_list)
      else ebind (best_scan (greedy_score self it cur cands denied selected_symptoms) symptoms_list None)
        (\<lambda>best. case best of
            Some (best_score, best_symptom) \<Rightarrow>
              if best_symptom \<noteq> []
              then greedy_rounds self it cur cands denied k
                     (insert best_symptom selected_symptoms) (remove1 best_symptom symptoms_list)
              else greedy_rounds self it cur cands denied k selected_symptoms symptoms_list
          | None \<Rightarrow> greedy_rounds self it cur cands denied k selected_symptoms symptoms_list))"

text \<open>The backfill loop \<^verbatim>\<open>for s in remaining\<close>.\<close>

fun backfill :: "int \<Rightarrow> symptom list \<Rightarrow> symptom set \<Rightarrow> symptom set" where
  "backfill n [] selected_symptoms = selected_symptoms"
| "backfill n (s # rest) selected_symptoms =
     (if int (card selected_symptoms) \<ge> n then selected_symptoms
      else backfill n rest (insert s selected_symptoms))"

definition greedy_selection ::
    "DiagnosticSystem \<Rightarrow> iteration \<Rightarrow> symptom set \<Rightarrow> catalog \<Rightarrow> symptom set \<Rightarrow> int \<Rightarrow> symptom set
      \<Rightarrow> error + symptom set" where
  "greedy_selection self it current_symptoms candidate_diseases available_symptoms n denied_symptoms =
     ebind (sorted_by_key_desc
              (symptom_score self it current_symptoms candidate_diseases denied_symptoms)
              (it available_symptoms))
       (\<lambda>symptoms_list.
     ebind (greedy_rounds self it current_symptoms candidate_diseases denied_symptoms (nat n)
              {} symptoms_list)
       (\<lambda>(selected_symptoms, symptoms_list).
          if int (card selected_symptoms) < n
          then ebind (sorted_by_key_desc
                        (symptom_score self it current_symptoms candidate_diseases denied_symptoms)
                        (filter (\<lambda>s. s \<notin> selected_symptoms) symptoms_list))
                 (\<lambda>remaining. Inr (backfill n remaining selected_symptoms))
          else Inr selected_symptoms))"

section \<open>The exhaustive selector\<close>

text \<open>
  \<^verbatim>\<open>itertools.combinations(xs, r)\<close>: the sublists of length \<open>r\<close> in lexicographic order of
  their positions; a negative \<open>r\<close> is refused.
\<close>

fun combinations :: "'a list \<Rightarrow> nat \<Rightarrow> 'a list list" where
  "combinations xs 0 = [[]]"
| "combinations [] (Suc r) = []"
| "combinations (x # xs) (Suc r) = map ((#) x) (combinations xs r) @ combinations xs (Suc r)"

definition py_combinations :: "'a list \<Rightarrow> int \<Rightarrow> error + 'a list list" where
  "py_combinations xs r =
     (if r < 0 then Inl (ValueError ''r must be non-negative'') else Inr (combinations xs (nat r)))"

definition combination_score ::
    "DiagnosticSystem \<Rightarrow> iteration \<Rightarrow> symptom set \<Rightarrow> catalog \<Rightarrow> symptom set \<Rightarrow> symptom list
      \<Rightarrow> error + real" where
  "combination_score self it current_symptoms candidate_diseases denied_symptoms combo =
     (let temp_symptoms = current_symptoms \<union> set combo in
      ebind (calculate_combined_score self it temp_symptoms candidate_diseases) (\<lambda>score.
        let denied_count = length (filter (\<lambda>symptom. symptom \<in> denied_symptoms) combo)
        in Inr (score - real denied_count * 0.2)))"

definition exhaustive_search ::
    "DiagnosticSystem \<Rightarrow> iteration \<Rightarrow> symptom set \<Rightarrow> catalog \<Rightarrow> symptom set \<Rightarrow> int \<Rightarrow> symptom set
      \<Rightarrow> error + symptom set" where
  "exhaustive_search self it current_symptoms candidate_diseases available_symptoms n denied_symptoms =
     ebind (sorted_by_key_desc
              (symptom_score self it current_symptoms candidate_diseases denied_symptoms)
              (it available_symptoms))
       (\<lambda>sorted_symptoms.
     ebind (py_combinations sorted_symptoms n) (\<lambda>combos.
     ebind (best_scan (combination_score self it current_symptoms candidate_diseases denied_symptoms)
              combos None)
       (\<lambda>best. Inr (case best of
                       Some (best_score, best_combination) \<Rightarrow>
                         if best_combination \<noteq> [] then set best_combination else {}
                     | None \<Rightarrow> {}))))"

section \<open>The genetic selector\<close>

subsection \<open>Random state and the numpy functions\<close>

text \<open>
  The genetic selector draws from numpy's global generator \<^verbatim>\<open>np.random\<close>. A computation
  that reads and advances that state, or raises, is a function from the state to an
  exception or a value with the next state.
\<close>

type_synonym ('a, 'r) rand = "'r \<Rightarrow> error + ('a \<times> 'r)"

definition rreturn :: "'a \<Rightarrow> ('a, 'r) rand" where
  "rreturn x = (\<lambda>r. Inr (x, r))"

definition rbind :: "('a, 'r) rand \<Rightarrow> ('a \<Rightarrow> ('b, 'r) rand) \<Rightarrow> ('b, 'r) rand" where
  "rbind m f = (\<lambda>r. case m r of Inl e \<Rightarrow> Inl e | Inr (x, r') \<Rightarrow> f x r')"

definition rlift :: "error + 'a \<Rightarrow> ('a, 'r) rand" where
  "rlift m = (\<lambda>r. case m of Inl e \<Rightarrow> Inl e | Inr x \<Rightarrow> Inr (x, r))"

fun rmap :: "('a \<Rightarrow> ('b, 'r) rand) \<Rightarrow> 'a list \<Rightarrow> ('b list, 'r) rand" where
  "rmap f [] = rreturn []"
| "rmap f (x # xs) = rbind (f x) (\<lambda>y. rbind (rmap f xs) (\<lambda>ys. rreturn (y # ys)))"

text \<open>
  numpy is not part of the repository: the draws of its generator over a state of type
  \<open>'r\<close>, and \<^verbatim>\<open>np.argsort\<close>, are parameters. \<open>choice_index k\<close> is the position drawn by
  \<^verbatim>\<open>choice(a)\<close> in a sequence of length \<open>k\<close>, \<open>choice_indices k m replace\<close> the positions
  drawn by \<^verbatim>\<open>choice(a, m, replace)\<close>, \<open>shuffle_order k\<close> the rearrangement \<^verbatim>\<open>shuffle\<close> makes
  of a list of length \<open>k\<close>, \<open>random_float\<close> the result of \<^verbatim>\<open>random()\<close>.
\<close>

record 'r numpy =
  choice_index :: "nat \<Rightarrow> 'r \<Rightarrow> nat \<times> 'r"
  choice_indices :: "nat \<Rightarrow> nat \<Rightarrow> bool \<Rightarrow> 'r \<Rightarrow> nat list \<times> 'r"
  shuffle_order :: "nat \<Rightarrow> 'r \<Rightarrow> nat list \<times> 'r"
  random_float :: "'r \<Rightarrow> real \<times> 'r"
  argsort :: "real list \<Rightarrow> nat list"

text \<open>What the selector relies on: drawn positions are in range, a sample without
  replacement does not repeat, a shuffle and an argsort are rearrangements. Under this
  contract every position read below with \<open>!\<close> is in range, so no \<^verbatim>\<open>IndexError\<close> is modelled.\<close>

definition numpy_ok :: "'r numpy \<Rightarrow> bool" where
  "numpy_ok np =
     ((\<forall>k r. 0 < k \<longrightarrow> fst (choice_index np k r) < k) \<and>
      (\<forall>k m r. 0 < k \<longrightarrow> length (fst (choice_indices np k m True r)) = m \<and>
                          set (fst (choice_indices np k m True r)) \<subseteq> {..<k}) \<and>
      (\<forall>k m r. m \<le> k \<longrightarrow> length (fst (choice_indices np k m False r)) = m \<and>
                          distinct (fst (choice_indices np k m False r)) \<and>
                          set (fst (choice_indices np k m False r)) \<subseteq> {..<k}) \<and>
      (\<forall>k r. mset (fst (shuffle_order np k r)) = mset [0..<k]) \<and>
      (\<forall>xs. mset (argsort np xs) = mset [0..<length xs]))"

text \<open>\<^verbatim>\<open>np.random.choice(a)\<close> for a list \<open>a\<close>. In the messages \<open>CHR 0x27\<close> is the
  single quote.\<close>

definition random_choice :: "'r numpy \<Rightarrow> 'a list \<Rightarrow> ('a, 'r) rand" where
  "random_choice np a =
     (\<lambda>r. if a = [] then Inl (ValueError (CHR 0x27 # ''a'' @ CHR 0x27 # '' cannot be empty unless no samples are taken''))
          else case choice_index np (length a) r of (i, r') \<Rightarrow> Inr (a ! i, r'))"

text \<open>\<^verbatim>\<open>np.random.choice(a, size, replace=False)\<close> for a list \<open>a\<close>.\<close>

definition random_choice_sample :: "'r numpy \<Rightarrow> 'a list \<Rightarrow> int \<Rightarrow> ('a list, 'r) rand" where
  "random_choice_sample np a size_n =
     (\<lambda>r. if a = [] \<and> size_n \<noteq> 0
          then Inl (ValueError (CHR 0x27 # ''a'' @ CHR 0x27 # '' cannot be empty unless no samples are taken''))
          else if size_n > int (length a)
          then Inl (ValueError (''Cannot take a larger sample than population when '' @
                 CHR 0x27 # ''replace=False'' @ [CHR 0x27]))
          else if size_n < 0
          then Inl (ValueError ''negative dimensions are not allowed'')
          else case choice_indices np (length a) (nat size_n) False r of
                 (idx, r') \<Rightarrow> Inr (map ((!) a) idx, r'))"

text \<open>\<^verbatim>\<open>np.random.choice(a, size)\<close> for an integer \<open>a\<close>: positions below \<open>a\<close>, with replacement.\<close>

definition random_choice_range :: "'r numpy \<Rightarrow> nat \<Rightarrow> nat \<Rightarrow> (nat list, 'r) rand" where
  "random_choice_range np a size_n =
     (\<lambda>r. if a = 0 \<and> size_n \<noteq> 0
          then Inl (ValueError ''a must be greater than 0 unless no samples are taken'')
          else case choice_indices np a size_n True r of (idx, r') \<Rightarrow> Inr (idx, r'))"

text \<open>\<^verbatim>\<open>np.random.shuffle(xs)\<close>, returning the list it leaves in place.\<close>

definition random_shuffle :: "'r numpy \<Rightarrow> 'a list \<Rightarrow> ('a list, 'r) rand" where
  "random_shuffle np xs =
     (\<lambda>r. case shuffle_order np (length xs) r of (p, r') \<Rightarrow> Inr (map ((!) xs) p, r'))"

definition random_random :: "'r numpy \<Rightarrow> (real, 'r) rand" where
  "random_random np = (\<lambda>r. Inr (random_float np r))"

text \<open>\<^verbatim>\<open>np.argmax\<close>: the first position of the maximum.\<close>

fun argmax_loop :: "real list \<Rightarrow> nat \<Rightarrow> nat \<Rightarrow> real \<Rightarrow> nat" where
  "argmax_loop [] i best_i best = best_i"
| "argmax_loop (x # xs) i best_i best =
     (if x > best then argmax_loop xs (Suc i) i x else argmax_loop xs (Suc i) best_i best)"

definition argmax :: "real list \<Rightarrow> error + nat" where
  "argmax xs = (case xs of
      [] \<Rightarrow> Inl (ValueError ''attempt to get argmax of an empty sequence'')
    | x # rest \<Rightarrow> Inr (argmax_loop rest 1 0 x))"

subsection \<open>The operators\<close>

definition tournament_select ::
    "'r numpy \<Rightarrow> symptom set list \<Rightarrow> real list \<Rightarrow> nat \<Rightarrow> (symptom set, 'r) rand" where
  "tournament_select np population fitness_scores tournament_size =
     rbind (random_choice_range np (length population) tournament_size) (\<lambda>indices.
       let tournament_fitness = map ((!) fitness_scores) indices in
       rbind (rlift (argmax tournament_fitness)) (\<lambda>winner_pos.
         let winner_idx = indices ! winner_pos in
         rreturn (population ! winner_idx)))"

text \<open>The \<^verbatim>\<open>while\<close> loop of \<^verbatim>\<open>_crossover\<close>; each turn that does not leave it appends one
  element.\<close>

function crossover_fill ::
    "'r numpy \<Rightarrow> iteration \<Rightarrow> symptom set \<Rightarrow> symptom set \<Rightarrow> int \<Rightarrow> symptom list
      \<Rightarrow> (symptom list, 'r) rand" where
  "crossover_fill np it parent1 parent2 n combined r =
     (if int (length combined) < n
      then (let remaining = (parent1 \<union> parent2) - set combined in
            if remaining = {} then Inr (combined, r)
            else (case random_choice np (it remaining) r of
                    Inl e \<Rightarrow> Inl e
                  | Inr (x, r') \<Rightarrow> crossover_fill np it parent1 parent2 n (combined @ [x]) r'))
      else Inr (combined, r))"
  by pat_completeness auto
termination
  by (relation "measure (\<lambda>(np, it, parent1, parent2, n, combined, r). nat (n - int (length combined)))")
     auto

declare crossover_fill.simps [simp del]

text \<open>The slice \<^verbatim>\<open>xs[:n]\<close>: a negative \<open>n\<close> counts from the end.\<close>

definition slice_to :: "int \<Rightarrow> 'a list \<Rightarrow> 'a list" where
  "slice_to n xs = (if 0 \<le> n then take (nat n) xs else take (length xs - nat (- n)) xs)"

definition crossover ::
    "'r numpy \<Rightarrow> iteration \<Rightarrow> symptom set \<Rightarrow> symptom set \<Rightarrow> int
      \<Rightarrow> (symptom set \<times> symptom set, 'r) rand" where
  "crossover np it parent1 parent2 n =
     (let combined = it (parent1 \<union> parent2) in
      rbind (if int (length combined) > n
             then rbind (random_shuffle np combined) (\<lambda>combined. rreturn (slice_to n combined))
             else rreturn combined)
        (\<lambda>combined.
      rbind (crossover_fill np it parent1 parent2 n combined) (\<lambda>combined.
        rreturn (set combined, set combined))))"

definition mutate ::
    "'r numpy \<Rightarrow> iteration \<Rightarrow> symptom set \<Rightarrow> symptom set \<Rightarrow> real \<Rightarrow> int \<Rightarrow> (symptom set, 'r) rand" where
  "mutate np it individual available_symptoms mutation_rate n =
     rbind (random_random np) (\<lambda>u.
       if u < mutation_rate
       then (let available = it (available_symptoms - individual) in
             if available \<noteq> []
             then rbind (random_choice np (it individual)) (\<lambda>symptom_to_replace.
                  rbind (random_choice np available) (\<lambda>new_symptom.
                    rreturn (insert new_symptom (individual - {symptom_to_replace}))))
             else rreturn individual)
       else rreturn individual)"

text \<open>The loop of \<^verbatim>\<open>_local_search\<close> over \<^verbatim>\<open>list(individual)\<close>, carrying the best individual
  and its score.\<close>

fun local_search_loop ::
    "'r numpy \<Rightarrow> DiagnosticSystem \<Rightarrow> iteration \<Rightarrow> symptom set \<Rightarrow> symptom set \<Rightarrow> catalog
      \<Rightarrow> symptom list \<Rightarrow> symptom set \<times> real \<Rightarrow> (symptom set \<times> real, 'r) rand" where
  "local_search_loop np self it individual cur cands [] best = rreturn best"
| "local_search_loop np self it individual cur cands (symptom # rest) best =
     (let new_individual = individual - {symptom};
          remaining_symptoms = all_symptoms self - cur - individual
      in if remaining_symptoms \<noteq> {}
         then rbind (random_choice np (it remaining_symptoms)) (\<lambda>new_symptom.
                let new_individual = insert new_symptom new_individual in
                rbind (rlift (calculate_combined_score self it (cur \<union> new_individual) cands))
                  (\<lambda>score.
                    if score > snd best
                    then local_search_loop np self it individual cur cands rest (new_individual, score)
                    else local_search_loop np self it individual cur cands rest best))
         else local_search_loop np self it individual cur cands rest best)"

definition local_search ::
    "'r numpy \<Rightarrow> DiagnosticSystem \<Rightarrow> iteration \<Rightarrow> symptom set \<Rightarrow> symptom set \<Rightarrow> catalog
      \<Rightarrow> (symptom set, 'r) rand" where
  "local_search np self it individual current_symptoms candidate_diseases =
     rbind (rlift (calculate_combined_score self it (current_symptoms \<union> individual) candidate_diseases))
       (\<lambda>best_score.
     rbind (local_search_loop np self it individual current_symptoms candidate_diseases
              (it individual) (individual, best_score))
       (\<lambda>best. rreturn (fst best)))"

subsection \<open>The generations\<close>

definition fitness ::
    "DiagnosticSystem \<Rightarrow> iteration \<Rightarrow> symptom set \<Rightarrow> catalog \<Rightarrow> symptom set \<Rightarrow> symptom set
      \<Rightarrow> error + real" where
  "fitness self it current_symptoms candidate_diseases denied_symptoms individual =
     (let temp_symptoms = current_symptoms \<union> individual in
      ebind (calculate_combined_score self it temp_symptoms candidate_diseases) (\<lambda>base_score.
        let penalty = 0.2 * real (length (filter (\<lambda>symptom. symptom \<in> denied_symptoms) (it individual)))
        in Inr (base_score - penalty)))"

text \<open>The breeding loop \<^verbatim>\<open>for _ in range((population_size - elite_size) // 2)\<close>.\<close>

fun breed ::
    "'r numpy \<Rightarrow> iteration \<Rightarrow> symptom set list \<Rightarrow> real list \<Rightarrow> symptom set \<Rightarrow> real \<Rightarrow> int
      \<Rightarrow> nat \<Rightarrow> symptom set list \<Rightarrow> (symptom set list, 'r) rand" where
  "breed np it population fitness_scores available mutation_rate n 0 new_population =
     rreturn new_population"
| "breed np it population fitness_scores available mutation_rate n (Suc k) new_population =
     rbind (tournament_select np population fitness_scores 3) (\<lambda>parent1.
     rbind (tournament_select np population fitness_scores 3) (\<lambda>parent2.
     rbind (crossover np it parent1 parent2 n) (\<lambda>(child1, child2).
     rbind (mutate np it child1 available mutation_rate n) (\<lambda>child1.
     rbind (mutate np it child2 available mutation_rate n) (\<lambda>child2.
       breed np it population fitness_scores available mutation_rate n k
         (new_population @ [child1, child2]))))))"

text \<open>The loop \<^verbatim>\<open>for generation in range(generations)\<close>, carrying the population and the
  mutation rate.\<close>

fun generations_loop ::
    "'r numpy \<Rightarrow> DiagnosticSystem \<Rightarrow> iteration \<Rightarrow> symptom set \<Rightarrow> catalog \<Rightarrow> symptom set \<Rightarrow> int
      \<Rightarrow> symptom set \<Rightarrow> nat \<Rightarrow> nat \<Rightarrow> nat \<Rightarrow> symptom set list \<Rightarrow> real
      \<Rightarrow> (symptom set list, 'r) rand" where
  "generations_loop np self it cur cands available n denied population_size elite_size 0
     population mutation_rate = rreturn population"
| "generations_loop np self it cur cands available n denied population_size elite_size (Suc g)
     population mutation_rate =
     rbind (rlift (map_err (fitness self it cur cands denied) population)) (\<lambda>fitness_scores.
       let order = argsort np fitness_scores;
           elite_individuals = map ((!) population) (drop (length order - elite_size) order)
       in
     rbind (breed np it population fitness_scores available mutation_rate n
              ((population_size - elite_size) div 2) elite_individuals)
       (\<lambda>new_population.
       let mutation_rate = max 0.01 (mutation_rate * 0.95) in
     rbind (rmap (\<lambda>individual. local_search np self it individual cur cands) new_population)
       (\<lambda>population.
         generations_loop np self it cur cands available n denied population_size elite_size g
           population mutation_rate)))"

text \<open>The builtin \<^verbatim>\<open>max(xs, key=f)\<close>: the first maximal element; an empty sequence is
  refused.\<close>

definition py_max_key :: "('a \<Rightarrow> error + real) \<Rightarrow> 'a list \<Rightarrow> error + 'a" where
  "py_max_key f xs =
     ebind (best_scan f xs None) (\<lambda>best. case best of
         None \<Rightarrow> Inl (ValueError ''max() arg is an empty sequence'')
       | Some (best_key, b) \<Rightarrow> Inr b)"

definition genetic_algorithm ::
    "'r numpy \<Rightarrow> DiagnosticSystem \<Rightarrow> iteration \<Rightarrow> symptom set \<Rightarrow> catalog \<Rightarrow> symptom set \<Rightarrow> int
      \<Rightarrow> symptom set \<Rightarrow> (symptom set, 'r) rand" where
  "genetic_algorithm np self it current_symptoms candidate_diseases available_symptoms n denied_symptoms =
     (let population_size = 50; generations = 30; mutation_rate = 0.1; elite_size = 5;
          remaining_list = it available_symptoms
      in
      rbind (rmap (\<lambda>_. rbind (random_choice_sample np remaining_list n) (\<lambda>sample. rreturn (set sample)))
               [0..<population_size])
        (\<lambda>population.
      rbind (generations_loop np self it current_symptoms candidate_diseases available_symptoms n
               denied_symptoms population_size elite_size generations population mutation_rate)
        (\<lambda>population.
      rlift (py_max_key (fitness self it current_symptoms candidate_diseases denied_symptoms)
               population))))"

section \<open>The entry point\<close>

text \<open>
  \<^verbatim>\<open>calculate_next_n_symptoms(current_symptoms, n, method, denied_symptoms=None)\<close>: the
  omitted or \<^verbatim>\<open>None\<close> argument is \<open>None\<close>. The greedy and the exhaustive selector leave
  the random state as it is.
\<close>

definition calculate_next_n_symptoms ::
    "'r numpy \<Rightarrow> DiagnosticSystem \<Rightarrow> iteration \<Rightarrow> symptom set \<Rightarrow> int \<Rightarrow> string
      \<Rightarrow> symptom set option \<Rightarrow> (symptom set, 'r) rand" where
  "calculate_next_n_symptoms np self it current_symptoms n method denied_symptoms =
     (let denied_symptoms = (case denied_symptoms of None \<Rightarrow> {} | Some d \<Rightarrow> d);
          candidate_diseases = get_candidate_diseases self current_symptoms;
          available_symptoms = all_symptoms self - current_symptoms
      in if int (card available_symptoms) < n then rreturn available_symptoms
         else if method = ''greedy''
         then rlift (greedy_selection self it current_symptoms candidate_diseases
                       available_symptoms n denied_symptoms)
         else if method = ''exhaustive''
         then rlift (exhaustive_search self it current_symptoms candidate_diseases
                       available_symptoms n denied_symptoms)
         else if method = ''genetic''
         then genetic_algorithm np self it current_symptoms candidate_diseases
                available_symptoms n denied_symptoms
         else rlift (Inl (ValueError ''Unknown method'')))"

section \<open>Vocabulary of the properties\<close>

text \<open>
  \<open>eyields E P m\<close>: the computation \<open>m\<close> either raises an exception of \<open>E\<close> or returns a
  value that satisfies \<open>P\<close>; \<open>ryields\<close> says the same of a computation over the random
  state, from every state.
\<close>

definition eyields :: "error set \<Rightarrow> ('a \<Rightarrow> bool) \<Rightarrow> error + 'a \<Rightarrow> bool" where
  "eyields E P m = (case m of Inl e \<Rightarrow> e \<in> E | Inr x \<Rightarrow> P x)"

definition ryields :: "error set \<Rightarrow> ('a \<Rightarrow> bool) \<Rightarrow> ('a, 'r) rand \<Rightarrow> bool" where
  "ryields E P m = (\<forall>r. eyields E (\<lambda>(x, r'). P x) (m r))"


text \<open>A stand-in for numpy's generator, driven by a counter; it is used where a concrete
  generator is needed.\<close>

definition counter_numpy :: "nat numpy" where
  "counter_numpy =
     \<lparr>choice_index = (\<lambda>k r. (r mod k, Suc r)),
      choice_indices = (\<lambda>k m replace r.
         (if replace then replicate m (r mod k) else take m (rotate r [0..<k]), Suc r)),
      shuffle_order = (\<lambda>k r. (rotate r [0..<k], Suc r)),
      random_float = (\<lambda>r. (real (r mod 10) / 10, Suc r)),
      argsort = (\<lambda>xs. map snd (sort_key fst (zip xs [0..<length xs])))\<rparr>"




text \<open>The exceptions other than the \<^verbatim>\<open>ValueError("Unknown method")\<close> of the entry point.\<close>

definition selector_errors :: "error set" where
  "selector_errors = - {ValueError ''Unknown method''}"

section \<open>Reasoning about computations that may raise\<close>

lemma eyields_Inr [simp]: "eyields E P (Inr x) = P x"
  by (simp add: eyields_def)

lemma eyields_Inl [simp]: "eyields E P (Inl e) = (e \<in> E)"
  by (simp add: eyields_def)

lemma eyields_bind:
  assumes "eyields E P m" and "\<And>x. P x \<Longrightarrow> eyields E Q (f x)"
  shows "eyields E Q (ebind m f)"
  using assms by (cases m) (simp_all add: ebind_def)

lemma eyields_weaken:
  assumes "eyields E P m" and "\<And>x. P x \<Longrightarrow> Q x" and "E \<subseteq> E'"
  shows "eyields E' Q m"
  using assms by (cases m) auto

lemma eyields_conj:
  assumes "eyields E P m" and "eyields E' Q m"
  shows "eyields (E \<inter> E') (\<lambda>x. P x \<and> Q x) m"
  using assms by (cases m) auto

lemma ryields_return [simp]: "ryields E P (rreturn x) = P x"
  by (simp add: ryields_def rreturn_def)

lemma ryields_bind:
  assumes "ryields E P m" and "\<And>x. P x \<Longrightarrow> ryields E Q (f x)"
  shows "ryields E Q (rbind m f)"
  unfolding ryields_def rbind_def
proof
  fix r
  from assms(1) have m: "eyields E (\<lambda>(x, r'). P x) (m r)" by (simp add: ryields_def)
  show "eyields E (\<lambda>(x, r'). Q x) (case m r of Inl e \<Rightarrow> Inl e | Inr (x, r') \<Rightarrow> f x r')"
  proof (cases "m r")
    case (Inl e)
    with m show ?thesis by simp
  next
    case (Inr p)
    obtain x r' where p: "p = (x, r')" by (cases p)
    with m Inr have "P x" by simp
    then have "ryields E Q (f x)" by (rule assms(2))
    then show ?thesis using Inr p by (simp add: ryields_def)
  qed
qed

lemma ryields_lift:
  assumes "eyields E P m"
  shows "ryields E P (rlift m)"
  using assms by (cases m) (simp_all add: ryields_def rlift_def)

lemma ryields_weaken:
  assumes "ryields E P m" and "\<And>x. P x \<Longrightarrow> Q x" and "E \<subseteq> E'"
  shows "ryields E' Q m"
  unfolding ryields_def
proof
  fix r
  from assms(1) have "eyields E (\<lambda>(x, r'). P x) (m r)" by (simp add: ryields_def)
  then show "eyields E' (\<lambda>(x, r'). Q x) (m r)"
    by (rule eyields_weaken) (use assms(2,3) in auto)
qed

lemma eyields_map_err:
  assumes "\<And>x. x \<in> set xs \<Longrightarrow> eyields E P (f x)"
  shows "eyields E (\<lambda>ys. length ys = length xs \<and> list_all P ys) (map_err f xs)"
  using assms
proof (induction xs)
  case Nil
  then show ?case by simp
next
  case (Cons x xs)
  show ?case
    unfolding map_err.simps
  proof (rule eyields_bind [where P = P])
    show "eyields E P (f x)" using Cons.prems by simp
  next
    fix y assume "P y"
    show "eyields E (\<lambda>ys. length ys = length (x # xs) \<and> list_all P ys)
            (ebind (map_err f xs) (\<lambda>ys. Inr (y # ys)))"
    proof (rule eyields_bind)
      show "eyields E (\<lambda>ys. length ys = length xs \<and> list_all P ys) (map_err f xs)"
        using Cons by simp
    qed (use \<open>P y\<close> in simp)
  qed
qed

lemma ryields_rmap:
  assumes "\<And>x. x \<in> set xs \<Longrightarrow> ryields E P (f x)"
  shows "ryields E (\<lambda>ys. length ys = length xs \<and> list_all P ys) (rmap f xs)"
  using assms
proof (induction xs)
  case Nil
  then show ?case by simp
next
  case (Cons x xs)
  show ?case
    unfolding rmap.simps
  proof (rule ryields_bind [where P = P])
    show "ryields E P (f x)" using Cons.prems by simp
  next
    fix y assume "P y"
    show "ryields E (\<lambda>ys. length ys = length (x # xs) \<and> list_all P ys)
            (rbind (rmap f xs) (\<lambda>ys. rreturn (y # ys)))"
    proof (rule ryields_bind)
      show "ryields E (\<lambda>ys. length ys = length xs \<and> list_all P ys) (rmap f xs)"
        using Cons by simp
    qed (use \<open>P y\<close> in simp)
  qed
qed

section \<open>Properties of the match rates\<close>

lemma match_scores_foldl:
  "foldl (\<lambda>scores (disease, symptoms). scores(disease \<mapsto> match_rate cur symptoms)) m cat d =
     (case map_of (rev cat) d of None \<Rightarrow> m d | Some syms \<Rightarrow> Some (match_rate cur syms))"
  by (induction cat arbitrary: m) (auto split: option.splits)

lemma match_scores_lookup:
  "get_disease_match_scores (DiagnosticSystem_init cat) cur d =
     map_option (match_rate cur) (map_of (rev cat) d)"
  by (simp add: get_disease_match_scores_def DiagnosticSystem_init_def match_scores_foldl
      split: option.splits)

lemma map_of_rev_distinct:
  assumes "distinct (map fst cat)" "(d, syms) \<in> set cat"
  shows "map_of (rev cat) d = Some syms"
proof -
  have "distinct (map fst (rev cat))" using assms(1) by (simp flip: rev_map)
  moreover have "(d, syms) \<in> set (rev cat)" using assms(2) by simp
  ultimately show ?thesis by (rule map_of_is_SomeI)
qed

lemma match_rate_bounds: "0 \<le> match_rate cur syms \<and> match_rate cur syms \<le> 1"
proof (cases "card syms > 0")
  case True
  then have "finite syms" using card_ge_0_finite by blast
  then have "card (cur \<inter> syms) \<le> card syms" by (simp add: card_mono)
  with True show ?thesis by (simp add: match_rate_def Let_def)
next
  case False
  then show ?thesis by (simp add: match_rate_def)
qed

lemma match_rate_mono:
  assumes "cur \<subseteq> cur'"
  shows "match_rate cur syms \<le> match_rate cur' syms"
proof (cases "card syms > 0")
  case True
  then have "finite syms" using card_ge_0_finite by blast
  then have "card (cur \<inter> syms) \<le> card (cur' \<inter> syms)"
    using assms by (intro card_mono) auto
  with True show ?thesis by (simp add: match_rate_def Let_def divide_right_mono)
next
  case False
  then show ?thesis by (simp add: match_rate_def)
qed

text \<open>
  C6. The match rate is monotone in the confirmed set: when \<open>confirmed \<subseteq> confirmed'\<close>, every
  disease of the catalog has a rate under \<open>confirmed\<close> that is at most its rate under
  \<open>confirmed'\<close>.
\<close>

theorem match_scores_monotone:
  assumes "confirmed \<subseteq> confirmed'" and "d \<in> fst ` set cat"
  shows "\<exists>r r'. get_disease_match_scores (DiagnosticSystem_init cat) confirmed d = Some r \<and>
                get_disease_match_scores (DiagnosticSystem_init cat) confirmed' d = Some r' \<and>
                r \<le> r'"
proof -
  from assms(2) have "d \<in> fst ` set (rev cat)" by simp
  then obtain syms where "map_of (rev cat) d = Some syms"
    by (metis domD dom_map_of_conv_image_fst)
  then show ?thesis
    using match_rate_mono [OF assms(1)] by (simp add: match_scores_lookup)
qed

theorem match_scores_monotone_witness:
  "{} \<subseteq> {''x''} \<and> ''A'' \<in> fst ` set [(''A'', {''x'', ''y''})] \<and>
   (\<exists>r r'. get_disease_match_scores (DiagnosticSystem_init [(''A'', {''x'', ''y''})]) {} ''A'' = Some r \<and>
            get_disease_match_scores (DiagnosticSystem_init [(''A'', {''x'', ''y''})]) {''x''} ''A'' = Some r' \<and>
            r \<le> r')"
  using match_scores_monotone [of "{}" "{''x''}" "''A''" "[(''A'', {''x'', ''y''})]"] by simp

text \<open>
  C7. The mapping returned by \<^verbatim>\<open>get_disease_match_scores\<close> has exactly the diseases of the
  catalog as keys; the value of a disease is \<open>|confirmed \<inter> symptoms| / |symptoms|\<close>, or 0
  when its symptom set is empty; the value lies in \<open>[0, 1]\<close>; and for the empty confirmed
  set it is 0.
\<close>

theorem match_scores_value:
  assumes "distinct (map fst cat)" and "(d, syms) \<in> set cat" and "finite syms"
  shows "dom (get_disease_match_scores (DiagnosticSystem_init cat) confirmed) = fst ` set cat \<and>
         get_disease_match_scores (DiagnosticSystem_init cat) confirmed d =
           Some (if syms = {} then 0 else real (card (confirmed \<inter> syms)) / real (card syms)) \<and>
         0 \<le> (if syms = {} then 0 else real (card (confirmed \<inter> syms)) / real (card syms)) \<and>
         (if syms = {} then 0 else real (card (confirmed \<inter> syms)) / real (card syms)) \<le> 1 \<and>
         get_disease_match_scores (DiagnosticSystem_init cat) {} d = Some 0"
proof -
  have look: "map_of (rev cat) d = Some syms"
    using assms(1,2) by (rule map_of_rev_distinct)
  have rate: "match_rate confirmed syms =
      (if syms = {} then 0 else real (card (confirmed \<inter> syms)) / real (card syms))"
    using assms(3) by (auto simp: match_rate_def Let_def card_gt_0_iff)
  have "dom (get_disease_match_scores (DiagnosticSystem_init cat) confirmed) = dom (map_of (rev cat))"
    by (auto simp: match_scores_lookup dom_def)
  then have "dom (get_disease_match_scores (DiagnosticSystem_init cat) confirmed) = fst ` set cat"
    by (simp add: dom_map_of_conv_image_fst)
  moreover have "get_disease_match_scores (DiagnosticSystem_init cat) confirmed d =
      Some (if syms = {} then 0 else real (card (confirmed \<inter> syms)) / real (card syms))"
    using look rate by (simp add: match_scores_lookup)
  moreover have "0 \<le> (if syms = {} then 0 else real (card (confirmed \<inter> syms)) / real (card syms))"
    and "(if syms = {} then 0 else real (card (confirmed \<inter> syms)) / real (card syms)) \<le> 1"
    using match_rate_bounds [of confirmed syms] unfolding rate by simp_all
  moreover have "get_disease_match_scores (DiagnosticSystem_init cat) {} d = Some 0"
    using look by (simp add: match_scores_lookup match_rate_def Let_def)
  ultimately show ?thesis by blast
qed

theorem match_scores_value_witness:
  "distinct (map fst [(''A'', {''x'', ''y''}), (''B'', {})]) \<and>
   (''A'', {''x'', ''y''}) \<in> set [(''A'', {''x'', ''y''}), (''B'', {})] \<and> finite {''x'', ''y''} \<and>
   get_disease_match_scores (DiagnosticSystem_init [(''A'', {''x'', ''y''}), (''B'', {})]) {''x''} ''A''
     = Some (1 / 2)"
  using match_scores_value [of "[(''A'', {''x'', ''y''}), (''B'', {})]" "''A''" "{''x'', ''y''}" "{''x''}"]
  by simp

section \<open>Properties of the scoring functions\<close>

text \<open>
  C9. With no candidate disease the information gain and the coverage of any symptom
  subset are 0; neither \<^verbatim>\<open>math.log2\<close> nor a division is reached, so no exception is raised.
\<close>

theorem scores_of_no_candidates:
  "calculate_total_information_gain it symptoms [] = Inr 0 \<and>
   calculate_coverage_score symptoms [] = Inr 0"
  by (simp add: calculate_total_information_gain_def calculate_coverage_score_def ebind_def)

subsection \<open>The exceptions of the scoring functions\<close>

text \<open>
  The logarithms are taken of positive numbers only, and the divisors of the information
  gain and of the mutual information are positive where they are reached. The quotient
  \<^verbatim>\<open>1.0 / (1.0 + mutual_info)\<close> of the independence score and the quotient by
  \<^verbatim>\<open>len(disease_symptoms)\<close> of the coverage are not guarded: a score raises no exception
  other than \<^verbatim>\<open>ZeroDivisionError\<close>.
\<close>


lemma py_div_ok: "b \<noteq> 0 \<Longrightarrow> py_div a b = Inr (a / b)"
  by (simp add: py_div_def)

lemma py_div_yields: "eyields {ZeroDivisionError} (\<lambda>_. True) (py_div a b)"
  by (simp add: py_div_def)

lemma py_log2_ok: "0 < x \<Longrightarrow> py_log2 x = Inr (log 2 x)"
  by (simp add: py_log2_def)

lemma conditional_entropy_loop_total:
  "0 < n \<Longrightarrow> \<exists>v. conditional_entropy_loop n groups acc = Inr v"
  by (induction groups arbitrary: acc) (simp_all add: py_div_ok py_log2_ok ebind_def)

lemma information_gain_total:
  "\<exists>v. calculate_total_information_gain it symptoms cands = Inr v"
proof (cases "length cands = 0")
  case True
  then show ?thesis by (simp add: calculate_total_information_gain_def)
next
  case False
  then have pos: "0 < length cands" by simp
  obtain v where "conditional_entropy_loop (length cands) (split_by_symptoms it symptoms cands) 0 = Inr v"
    using conditional_entropy_loop_total [OF pos] by blast
  with pos show ?thesis
    by (simp add: calculate_total_information_gain_def py_log2_ok ebind_def Let_def)
qed

lemma coverage_loop_yields:
  "eyields {ZeroDivisionError} (\<lambda>_. True) (coverage_loop symptoms cands acc)"
proof (induction cands arbitrary: acc)
  case Nil
  then show ?case by simp
next
  case (Cons c cands)
  obtain d ds where c: "c = (d, ds)" by (cases c)
  show ?case unfolding c coverage_loop.simps
    by (rule eyields_bind [OF py_div_yields]) (rule Cons.IH)
qed

lemma coverage_score_yields:
  "eyields {ZeroDivisionError} (\<lambda>_. True) (calculate_coverage_score symptoms cands)"
  unfolding calculate_coverage_score_def
  by (rule eyields_bind [OF coverage_loop_yields]) (simp add: py_div_yields)

lemma mutual_information_counts_foldl:
  "foldl (\<lambda>(count_both, count_s1, count_s2) symptoms.
        let has_s1 = s1 \<in> symptoms; has_s2 = s2 \<in> symptoms
        in (if has_s1 \<and> has_s2 then count_both + 1 else count_both,
            if has_s1 then count_s1 + 1 else count_s1,
            if has_s2 then count_s2 + 1 else count_s2))
       (a, b, c) vals =
   (a + length (filter (\<lambda>sy. s1 \<in> sy \<and> s2 \<in> sy) vals),
    b + length (filter (\<lambda>sy. s1 \<in> sy) vals),
    c + length (filter (\<lambda>sy. s2 \<in> sy) vals))"
  by (induction vals arbitrary: a b c) (simp_all add: Let_def)

lemma mutual_information_counts_eq:
  "mutual_information_counts s1 s2 vals =
   (length (filter (\<lambda>sy. s1 \<in> sy \<and> s2 \<in> sy) vals),
    length (filter (\<lambda>sy. s1 \<in> sy) vals),
    length (filter (\<lambda>sy. s2 \<in> sy) vals))"
  unfolding mutual_information_counts_def by (simp add: mutual_information_counts_foldl)

lemma filter_conj_length_le1:
  "length (filter (\<lambda>x. P x \<and> Q x) xs) \<le> length (filter P xs)"
  by (induction xs) auto

lemma filter_conj_length_le2:
  "length (filter (\<lambda>x. P x \<and> Q x) xs) \<le> length (filter Q xs)"
  by (induction xs) auto

lemma mutual_information_total:
  "\<exists>v. calculate_mutual_information self s1 s2 = Inr v"
proof -
  define vals where "vals = map snd (disease_symptoms self)"
  define cb where "cb = length (filter (\<lambda>sy. s1 \<in> sy \<and> s2 \<in> sy) vals)"
  define c1 where "c1 = length (filter (\<lambda>sy. s1 \<in> sy) vals)"
  define c2 where "c2 = length (filter (\<lambda>sy. s2 \<in> sy) vals)"
  define t where "t = length (disease_symptoms self)"
  have counts: "mutual_information_counts s1 s2 (map snd (disease_symptoms self)) = (cb, c1, c2)"
    by (simp add: mutual_information_counts_eq cb_def c1_def c2_def vals_def)
  have le: "cb \<le> c1" "cb \<le> c2" "cb \<le> t"
    using filter_conj_length_le1 [of "\<lambda>sy. s1 \<in> sy" "\<lambda>sy. s2 \<in> sy" vals]
          filter_conj_length_le2 [of "\<lambda>sy. s1 \<in> sy" "\<lambda>sy. s2 \<in> sy" vals]
          length_filter_le [of "\<lambda>sy. s1 \<in> sy \<and> s2 \<in> sy" vals]
    by (simp_all add: cb_def c1_def c2_def t_def vals_def)
  show ?thesis
  proof (cases "cb = 0")
    case True
    then show ?thesis by (simp add: calculate_mutual_information_def counts)
  next
    case False
    with le have pos: "0 < cb" "0 < c1" "0 < c2" "0 < t" by simp_all
    then have q: "0 < real cb / real t / (real c1 / real t * (real c2 / real t))" by simp
    show ?thesis
      using pos q
      by (simp add: calculate_mutual_information_def counts t_def [symmetric] py_div_ok py_log2_ok
          ebind_def Let_def)
  qed
qed

lemma mutual_info_loop_total:
  "\<exists>v. mutual_info_loop self ps acc = Inr v"
proof (induction ps arbitrary: acc)
  case Nil
  then show ?case by simp
next
  case (Cons p ps)
  obtain a b where p: "p = (a, b)" by (cases p)
  obtain v where "calculate_mutual_information self a b = Inr v"
    using mutual_information_total by blast
  then show ?case using Cons.IH by (simp add: p ebind_def)
qed

lemma independence_score_yields:
  "eyields {ZeroDivisionError} (\<lambda>_. True) (calculate_independence_score self it symptoms)"
proof -
  obtain v where "mutual_info_loop self (pairs (it symptoms)) 0 = Inr v"
    using mutual_info_loop_total by blast
  then show ?thesis
    by (simp add: calculate_independence_score_def ebind_def py_div_yields)
qed

lemma combined_score_yields:
  "eyields {ZeroDivisionError} (\<lambda>_. True) (calculate_combined_score self it symptoms cands)"
proof -
  obtain v where ig: "calculate_total_information_gain it symptoms cands = Inr v"
    using information_gain_total by blast
  show ?thesis
    unfolding calculate_combined_score_def ig
    apply (simp add: ebind_def [of "Inr v"])
    apply (rule eyields_bind [OF coverage_score_yields])
    apply (rule eyields_bind [OF independence_score_yields])
    apply simp
    done
qed

section \<open>Sorting and scanning\<close>

lemma map_err_Inr_length: "map_err f xs = Inr ys \<Longrightarrow> length ys = length xs"
proof (induction xs arbitrary: ys)
  case Nil
  then show ?case by simp
next
  case (Cons x xs)
  then show ?case
    by (cases "f x"; cases "map_err f xs") (auto simp: ebind_def)
qed

lemma sorted_by_key_desc_mset:
  assumes "sorted_by_key_desc f xs = Inr ys"
  shows "mset ys = mset xs"
proof -
  from assms obtain ks where ks: "map_err f xs = Inr ks"
    and ys: "ys = map snd (sort_key (\<lambda>(k, x). - k) (zip ks xs))"
    by (cases "map_err f xs") (auto simp: sorted_by_key_desc_def ebind_def)
  have "length ks = length xs" using ks by (rule map_err_Inr_length)
  then have "map snd (zip ks xs) = xs" by simp
  moreover have "mset ys = mset (map snd (zip ks xs))"
    unfolding ys by simp
  ultimately show ?thesis by simp
qed

lemma sorted_by_key_desc_yields:
  assumes "\<And>x. x \<in> set xs \<Longrightarrow> eyields E (\<lambda>_. True) (f x)"
  shows "eyields E (\<lambda>ys. mset ys = mset xs) (sorted_by_key_desc f xs)"
proof (cases "sorted_by_key_desc f xs")
  case (Inl e)
  have "eyields E (\<lambda>ys. length ys = length xs \<and> list_all (\<lambda>_. True) ys) (map_err f xs)"
    by (rule eyields_map_err) (rule assms)
  with Inl show ?thesis
    by (cases "map_err f xs") (auto simp: sorted_by_key_desc_def ebind_def)
next
  case (Inr ys)
  then show ?thesis by (simp add: sorted_by_key_desc_mset)
qed






lemma best_scan_yields:
  assumes "\<And>x. x \<in> set xs \<Longrightarrow> eyields E (\<lambda>_. True) (f x)"
  shows "eyields E (\<lambda>_. True) (best_scan f xs best)"
  using assms
proof (induction xs arbitrary: best)
  case Nil
  then show ?case by simp
next
  case (Cons x xs)
  show ?case unfolding best_scan.simps
    by (rule eyields_bind [where P = "\<lambda>_. True"]) (use Cons in auto)
qed



section \<open>Combinations\<close>






section \<open>Properties of the exhaustive selector\<close>

lemma argsort_counter_mset:
  "image_mset snd (mset (zip xs [0..<length xs])) = mset [0..<length xs]"
proof -
  have "image_mset snd (mset (zip xs [0..<length xs])) = mset (map snd (zip xs [0..<length xs]))"
    by (simp only: mset_map)
  also have "map snd (zip xs [0..<length xs]) = [0..<length xs]" by simp
  finally show ?thesis .
qed

lemma mset_rotate1_eq: "mset (rotate1 xs) = mset xs"
  by (cases xs) simp_all

lemma mset_rotate_eq: "mset (rotate n xs) = mset xs"
  by (induction n) (simp_all add: mset_rotate1_eq)

lemma numpy_ok_counter: "numpy_ok counter_numpy"
  unfolding numpy_ok_def counter_numpy_def
  by (auto simp: argsort_counter_mset mset_rotate_eq simp del: mset_upt dest: in_set_takeD)

lemma iter_ok_sorted_list: "iter_ok sorted_list_of_set"
  by (simp add: iter_ok_def)




lemma symptom_score_yields:
  "eyields {ZeroDivisionError} (\<lambda>_. True) (symptom_score self it cur cands denied s)"
  unfolding symptom_score_def calculate_symptom_importance_def
  by (rule eyields_bind [OF combined_score_yields]) simp

lemma combination_score_yields:
  "eyields {ZeroDivisionError} (\<lambda>_. True) (combination_score self it cur cands denied c)"
  unfolding combination_score_def Let_def
  by (rule eyields_bind [OF combined_score_yields]) simp











section \<open>Properties of the greedy selector\<close>

lemma greedy_score_yields:
  "eyields {ZeroDivisionError} (\<lambda>_. True) (greedy_score self it cur cands denied selected s)"
  unfolding greedy_score_def Let_def
  by (rule eyields_bind [OF combined_score_yields]) simp






section \<open>Properties of the genetic selector\<close>

subsection \<open>The numpy functions\<close>





lemma random_shuffle_yields:
  assumes "numpy_ok np"
  shows "ryields E (\<lambda>ys. mset ys = mset xs) (random_shuffle np xs)"
  unfolding ryields_def
proof
  fix r
  obtain p r' where c: "shuffle_order np (length xs) r = (p, r')"
    by (cases "shuffle_order np (length xs) r")
  have "mset (fst (shuffle_order np (length xs) r)) = mset [0..<length xs]"
    using assms unfolding numpy_ok_def by blast
  with c have "mset p = mset [0..<length xs]" by simp
  then have "mset (map ((!) xs) p) = mset (map ((!) xs) [0..<length xs])"
    by (metis mset_map)
  then have "mset (map ((!) xs) p) = mset xs" by (simp only: map_nth)
  with c show "eyields E (\<lambda>(ys, r'). mset ys = mset xs) (random_shuffle np xs r)"
    by (simp add: random_shuffle_def)
qed

lemma random_random_yields: "ryields E (\<lambda>_. True) (random_random np)"
  by (simp add: ryields_def random_random_def split: prod.splits)



subsection \<open>The operators\<close>


lemma crossover_fill_done:
  "n \<le> int (length combined) \<Longrightarrow> crossover_fill np it p1 p2 n combined r = Inr (combined, r)"
  by (simp add: crossover_fill.simps)

lemma crossover_yields:
  assumes "numpy_ok np" and "iter_ok it" and "finite p1" and "finite p2" and "int (card p1) = n"
  shows "ryields E (\<lambda>(c1, c2). c1 = c2 \<and> c1 \<subseteq> p1 \<union> p2 \<and> int (card c1) = n)
           (crossover np it p1 p2 n)"
proof -
  let ?u = "it (p1 \<union> p2)"
  have u: "set ?u = p1 \<union> p2" "distinct ?u"
    using assms(2,3,4) by (simp_all add: iter_ok_def)
  have "card p1 \<le> card (p1 \<union> p2)" using assms(3,4) by (simp add: card_mono)
  also have "card (p1 \<union> p2) = length ?u" using u by (metis distinct_card)
  finally have len: "n \<le> int (length ?u)" using assms(5) by simp
  have n0: "0 \<le> n" using assms(5) by simp
  let ?Q = "\<lambda>c. distinct c \<and> set c \<subseteq> p1 \<union> p2 \<and> int (length c) = n"
  have first: "ryields E ?Q
      (if int (length ?u) > n
       then rbind (random_shuffle np ?u) (\<lambda>combined. rreturn (slice_to n combined))
       else rreturn ?u)"
  proof (cases "int (length ?u) > n")
    case True
    have "ryields E ?Q (rbind (random_shuffle np ?u) (\<lambda>combined. rreturn (slice_to n combined)))"
    proof (rule ryields_bind [OF random_shuffle_yields [OF assms(1)]])
      fix ys assume m: "mset ys = mset ?u"
      have ys: "set ys = p1 \<union> p2" "distinct ys" "length ys = length ?u"
        using m u by (metis set_mset_mset, metis mset_eq_imp_distinct_iff, metis size_mset)
      have "set (take (nat n) ys) \<subseteq> p1 \<union> p2" using ys(1) by (auto dest: in_set_takeD)
      moreover have "int (length (take (nat n) ys)) = n" using ys(3) len n0 by simp
      ultimately show "ryields E ?Q (rreturn (slice_to n ys))"
        using ys(2) n0 by (simp add: slice_to_def)
    qed
    with True show ?thesis by simp
  next
    case False
    with len u show ?thesis by simp
  qed
  show ?thesis
    unfolding crossover_def Let_def
  proof (rule ryields_bind [OF first])
    fix c assume c: "?Q c"
    then have filled: "\<And>r. crossover_fill np it p1 p2 n c r = Inr (c, r)"
      by (intro crossover_fill_done) simp
    have "int (card (set c)) = n" using c by (simp add: distinct_card)
    with c show "ryields E (\<lambda>(c1, c2). c1 = c2 \<and> c1 \<subseteq> p1 \<union> p2 \<and> int (card c1) = n)
        (rbind (crossover_fill np it p1 p2 n c) (\<lambda>combined. rreturn (set combined, set combined)))"
      by (simp add: ryields_def rbind_def filled rreturn_def)
  qed
qed






subsection \<open>The generations\<close>

lemma fitness_yields:
  "eyields {ZeroDivisionError} (\<lambda>_. True) (fitness self it cur cands denied S)"
  unfolding fitness_def Let_def
  by (rule eyields_bind [OF combined_score_yields]) simp





subsection \<open>The crossover\<close>

text \<open>
  C8. For finite parents of \<open>n\<close> symptoms each, the crossover returns, without raising, two
  children that are one and the same set, of exactly \<open>n\<close> symptoms, all taken from the union
  of the parents.
\<close>

theorem crossover_children_same:
  assumes "numpy_ok np" and "iter_ok it" and "finite p1" and "finite p2"
    and "int (card p1) = n" and "int (card p2) = n"
  shows "\<exists>c r'. crossover np it p1 p2 n r = Inr ((c, c), r') \<and> int (card c) = n \<and> c \<subseteq> p1 \<union> p2"
proof -
  have "ryields {} (\<lambda>(c1, c2). c1 = c2 \<and> c1 \<subseteq> p1 \<union> p2 \<and> int (card c1) = n)
      (crossover np it p1 p2 n)"
    using assms(1-5) by (rule crossover_yields)
  then have "eyields {} (\<lambda>(x, r'). case x of (c1, c2) \<Rightarrow> c1 = c2 \<and> c1 \<subseteq> p1 \<union> p2 \<and> int (card c1) = n)
      (crossover np it p1 p2 n r)"
    by (simp add: ryields_def)
  then show ?thesis by (cases "crossover np it p1 p2 n r") auto
qed

theorem crossover_children_same_witness:
  "numpy_ok counter_numpy \<and> iter_ok sorted_list_of_set \<and> finite {''a'', ''b''} \<and>
   finite {''b'', ''c''} \<and> int (card {''a'', ''b''}) = 2 \<and> int (card {''b'', ''c''}) = 2 \<and>
   (\<exists>c r'. crossover counter_numpy sorted_list_of_set {''a'', ''b''} {''b'', ''c''} 2 0 =
              Inr ((c, c), r') \<and>
            int (card c) = 2 \<and> c \<subseteq> {''a'', ''b''} \<union> {''b'', ''c''})"
proof -
  have h1: "numpy_ok counter_numpy" by (rule numpy_ok_counter)
  have h2: "iter_ok sorted_list_of_set" by (rule iter_ok_sorted_list)
  have h3: "finite {''a'', ''b''}" and h4: "finite {''b'', ''c''}" by simp_all
  have h5: "int (card {''a'', ''b''}) = 2" and h6: "int (card {''b'', ''c''}) = 2" by simp_all
  from crossover_children_same [OF h1 h2 h3 h4 h5 h6, of 0]
  show ?thesis using h1 h2 h5 h6 by simp
qed


subsection \<open>No selector raises the exception of the dispatch\<close>

lemma zero_division_selector_error: "{ZeroDivisionError} \<subseteq> selector_errors"
  by (simp add: selector_errors_def)

lemma eyields_any:
  assumes "eyields {ZeroDivisionError} P m"
  shows "eyields selector_errors (\<lambda>_. True) m"
  using assms by (rule eyields_weaken) (simp_all add: selector_errors_def)

lemma ryields_bind_any:
  assumes "ryields E (\<lambda>_. True) m" and "\<And>x. ryields E Q (f x)"
  shows "ryields E Q (rbind m f)"
  using assms(1) by (rule ryields_bind) (rule assms(2))

lemma ryields_if:
  assumes "c \<Longrightarrow> ryields E Q a" and "\<not> c \<Longrightarrow> ryields E Q b"
  shows "ryields E Q (if c then a else b)"
  using assms by simp

lemma random_choice_any: "ryields selector_errors (\<lambda>_. True) (random_choice np a)"
  by (simp add: ryields_def random_choice_def selector_errors_def split: prod.splits)

lemma random_choice_sample_any:
  "ryields selector_errors (\<lambda>_. True) (random_choice_sample np a n)"
  by (simp add: ryields_def random_choice_sample_def selector_errors_def split: prod.splits)

lemma random_choice_range_any:
  "ryields selector_errors (\<lambda>_. True) (random_choice_range np a m)"
  by (simp add: ryields_def random_choice_range_def selector_errors_def split: prod.splits)

lemma random_shuffle_any: "ryields selector_errors (\<lambda>_. True) (random_shuffle np xs)"
  by (simp add: ryields_def random_shuffle_def split: prod.splits)

lemma argmax_any: "eyields selector_errors (\<lambda>_. True) (argmax xs)"
  by (simp add: argmax_def selector_errors_def split: list.splits)

lemma combined_score_any:
  "ryields selector_errors (\<lambda>_. True) (rlift (calculate_combined_score self it symptoms cands))"
  by (rule ryields_lift [OF eyields_any [OF combined_score_yields]])

lemma tournament_select_any:
  "ryields selector_errors (\<lambda>_. True) (tournament_select np population fitness_scores k)"
  unfolding tournament_select_def Let_def
  by (intro ryields_bind_any random_choice_range_any ryields_lift argmax_any) simp

lemma crossover_fill_any:
  "eyields selector_errors (\<lambda>_. True) (crossover_fill np it p1 p2 n combined r)"
proof (induction np it p1 p2 n combined r rule: crossover_fill.induct)
  case (1 np it p1 p2 n combined r)
  show ?case
  proof (cases "int (length combined) < n \<and> (p1 \<union> p2) - set combined \<noteq> {}")
    case False
    then show ?thesis by (auto simp: crossover_fill.simps [of np it p1 p2 n combined r])
  next
    case True
    show ?thesis
    proof (cases "random_choice np (it ((p1 \<union> p2) - set combined)) r")
      case (Inl e)
      have "eyields selector_errors (\<lambda>(x, r'). True)
          (random_choice np (it ((p1 \<union> p2) - set combined)) r)"
        using random_choice_any [of np "it ((p1 \<union> p2) - set combined)"] by (simp add: ryields_def)
      with Inl have "e \<in> selector_errors" by simp
      with Inl True show ?thesis
        by (simp add: crossover_fill.simps [of np it p1 p2 n combined r])
    next
      case (Inr p)
      obtain x r' where p: "p = (x, r')" by (cases p)
      from True Inr p have "eyields selector_errors (\<lambda>_. True)
          (crossover_fill np it p1 p2 n (combined @ [x]) r')"
        by (intro 1) auto
      with Inr p True show ?thesis
        by (simp add: crossover_fill.simps [of np it p1 p2 n combined r])
    qed
  qed
qed

lemma crossover_fill_ryields:
  "ryields selector_errors (\<lambda>_. True) (crossover_fill np it p1 p2 n combined)"
  unfolding ryields_def
proof
  fix r
  have "eyields selector_errors (\<lambda>_. True) (crossover_fill np it p1 p2 n combined r)"
    by (rule crossover_fill_any)
  then show "eyields selector_errors (\<lambda>(x, r'). True) (crossover_fill np it p1 p2 n combined r)"
    by (rule eyields_weaken) auto
qed

lemma crossover_any: "ryields selector_errors (\<lambda>_. True) (crossover np it p1 p2 n)"
  unfolding crossover_def Let_def
  by (intro ryields_bind_any ryields_if random_shuffle_any crossover_fill_ryields) simp_all

lemma mutate_any: "ryields selector_errors (\<lambda>_. True) (mutate np it S pool rate n)"
  unfolding mutate_def Let_def
  by (intro ryields_bind_any ryields_if random_random_yields random_choice_any) simp_all

lemma local_search_loop_any:
  "ryields selector_errors (\<lambda>_. True) (local_search_loop np self it individual cur cands lst best)"
proof (induction lst arbitrary: best)
  case Nil
  then show ?case by simp
next
  case (Cons s lst)
  show ?case
    unfolding local_search_loop.simps Let_def
    by (intro ryields_bind_any ryields_if random_choice_any combined_score_any Cons.IH)
qed

lemma local_search_any:
  "ryields selector_errors (\<lambda>_. True) (local_search np self it individual cur cands)"
  unfolding local_search_def
  by (intro ryields_bind_any combined_score_any local_search_loop_any) simp

lemma breed_any:
  "ryields selector_errors (\<lambda>_. True)
     (breed np it population fitness_scores pool rate n k new_population)"
proof (induction k arbitrary: new_population)
  case 0
  then show ?case by simp
next
  case (Suc k)
  show ?case
    unfolding breed.simps
    apply (intro ryields_bind_any tournament_select_any crossover_any)
    apply (simp only: split_beta)
    apply (intro ryields_bind_any mutate_any Suc.IH)
    done
qed

lemma rmap_any:
  assumes "\<And>x. ryields E (\<lambda>_. True) (f x)"
  shows "ryields E (\<lambda>_. True) (rmap f xs)"
proof (rule ryields_weaken)
  show "ryields E (\<lambda>ys. length ys = length xs \<and> list_all (\<lambda>_. True) ys) (rmap f xs)"
    by (rule ryields_rmap) (rule assms)
qed simp_all

lemma generations_loop_any:
  "ryields selector_errors (\<lambda>_. True)
     (generations_loop np self it cur cands pool n denied population_size elite_size g
        population rate)"
proof (induction g arbitrary: population rate)
  case 0
  then show ?case by simp
next
  case (Suc g)
  have fit: "ryields selector_errors (\<lambda>_. True)
      (rlift (map_err (fitness self it cur cands denied) population))"
    by (rule ryields_lift, rule eyields_any, rule eyields_map_err, rule fitness_yields)
  show ?case
    unfolding generations_loop.simps Let_def
    by (intro ryields_bind_any fit breed_any rmap_any local_search_any Suc.IH)
qed

lemma py_max_key_any:
  "eyields selector_errors (\<lambda>_. True) (py_max_key (fitness self it cur cands denied) xs)"
proof (cases "best_scan (fitness self it cur cands denied) xs None")
  case (Inl e)
  have "eyields {ZeroDivisionError} (\<lambda>_. True) (best_scan (fitness self it cur cands denied) xs None)"
    by (rule best_scan_yields) (rule fitness_yields)
  with Inl show ?thesis by (simp add: py_max_key_def ebind_def selector_errors_def)
next
  case (Inr res)
  then show ?thesis
    by (cases res) (auto simp: py_max_key_def ebind_def selector_errors_def)
qed

lemma genetic_algorithm_any:
  "ryields selector_errors (\<lambda>_. True) (genetic_algorithm np self it cur cands pool n denied)"
  unfolding genetic_algorithm_def Let_def
  by (intro ryields_bind_any rmap_any random_choice_sample_any generations_loop_any
        ryields_lift py_max_key_any) simp

lemma exhaustive_search_any:
  "eyields selector_errors (\<lambda>_. True) (exhaustive_search self it cur cands pool n denied)"
  unfolding exhaustive_search_def
proof (rule eyields_bind [where P = "\<lambda>_. True"])
  show "eyields selector_errors (\<lambda>_. True)
      (sorted_by_key_desc (symptom_score self it cur cands denied) (it pool))"
    by (rule eyields_any, rule sorted_by_key_desc_yields, rule symptom_score_yields)
next
  fix sorted_symptoms :: "symptom list"
  show "eyields selector_errors (\<lambda>_. True)
      (ebind (py_combinations sorted_symptoms n) (\<lambda>combos.
       ebind (best_scan (combination_score self it cur cands denied) combos None)
         (\<lambda>best. Inr (case best of
                         Some (best_score, best_combination) \<Rightarrow>
                           if best_combination \<noteq> [] then set best_combination else {}
                       | None \<Rightarrow> {}))))"
  proof (rule eyields_bind [where P = "\<lambda>_. True"])
    show "eyields selector_errors (\<lambda>_. True) (py_combinations sorted_symptoms n)"
      by (simp add: py_combinations_def selector_errors_def)
  next
    fix combos :: "symptom list list"
    show "eyields selector_errors (\<lambda>_. True)
        (ebind (best_scan (combination_score self it cur cands denied) combos None)
           (\<lambda>best. Inr (case best of
                           Some (best_score, best_combination) \<Rightarrow>
                             if best_combination \<noteq> [] then set best_combination else {}
                         | None \<Rightarrow> {})))"
      by (rule eyields_bind [where P = "\<lambda>_. True"], rule eyields_any, rule best_scan_yields,
          rule combination_score_yields) simp
  qed
qed

lemma greedy_rounds_any:
  "eyields {ZeroDivisionError} (\<lambda>_. True) (greedy_rounds self it cur cands denied k selected lst)"
proof (induction k arbitrary: selected lst)
  case 0
  then show ?case by simp
next
  case (Suc k)
  show ?case
  proof (cases "lst = []")
    case True
    then show ?thesis by simp
  next
    case False
    have "eyields {ZeroDivisionError} (\<lambda>_. True)
        (ebind (best_scan (greedy_score self it cur cands denied selected) lst None)
          (\<lambda>best. case best of
              Some (best_score, best_symptom) \<Rightarrow>
                if best_symptom \<noteq> []
                then greedy_rounds self it cur cands denied k
                       (insert best_symptom selected) (remove1 best_symptom lst)
                else greedy_rounds self it cur cands denied k selected lst
            | None \<Rightarrow> greedy_rounds self it cur cands denied k selected lst))"
    proof (rule eyields_bind [where P = "\<lambda>_. True"])
      show "eyields {ZeroDivisionError} (\<lambda>_. True)
          (best_scan (greedy_score self it cur cands denied selected) lst None)"
        by (rule best_scan_yields) (rule greedy_score_yields)
    next
      fix best :: "(real \<times> symptom) option"
      show "eyields {ZeroDivisionError} (\<lambda>_. True)
          (case best of
              Some (best_score, best_symptom) \<Rightarrow>
                if best_symptom \<noteq> []
                then greedy_rounds self it cur cands denied k
                       (insert best_symptom selected) (remove1 best_symptom lst)
                else greedy_rounds self it cur cands denied k selected lst
            | None \<Rightarrow> greedy_rounds self it cur cands denied k selected lst)"
        using Suc.IH by (auto split: option.splits)
    qed
    with False show ?thesis by simp
  qed
qed

lemma greedy_selection_any:
  "eyields selector_errors (\<lambda>_. True) (greedy_selection self it cur cands pool n denied)"
proof (rule eyields_any [where P = "\<lambda>_. True"])
  have sorted: "eyields {ZeroDivisionError} (\<lambda>_. True)
      (sorted_by_key_desc (symptom_score self it cur cands denied) xs)" for xs
  proof (rule eyields_weaken)
    show "eyields {ZeroDivisionError} (\<lambda>ys. mset ys = mset xs)
        (sorted_by_key_desc (symptom_score self it cur cands denied) xs)"
      by (rule sorted_by_key_desc_yields) (rule symptom_score_yields)
  qed simp_all
  show "eyields {ZeroDivisionError} (\<lambda>_. True) (greedy_selection self it cur cands pool n denied)"
    unfolding greedy_selection_def
  proof (rule eyields_bind [OF sorted])
    fix lst :: "symptom list"
    show "eyields {ZeroDivisionError} (\<lambda>_. True)
        (ebind (greedy_rounds self it cur cands denied (nat n) {} lst)
          (\<lambda>(selected_symptoms, symptoms_list).
              if int (card selected_symptoms) < n
              then ebind (sorted_by_key_desc (symptom_score self it cur cands denied)
                       (filter (\<lambda>s. s \<notin> selected_symptoms) symptoms_list))
                     (\<lambda>remaining. Inr (backfill n remaining selected_symptoms))
              else Inr selected_symptoms))"
    proof (rule eyields_bind [OF greedy_rounds_any])
      fix p :: "symptom set \<times> symptom list"
      have "eyields {ZeroDivisionError} (\<lambda>_. True)
          (ebind (sorted_by_key_desc (symptom_score self it cur cands denied)
                    (filter (\<lambda>s. s \<notin> fst p) (snd p)))
             (\<lambda>remaining. Inr (backfill n remaining (fst p))))"
        by (rule eyields_bind [OF sorted]) simp
      then show "eyields {ZeroDivisionError} (\<lambda>_. True)
          (case p of (selected_symptoms, symptoms_list) \<Rightarrow>
              if int (card selected_symptoms) < n
              then ebind (sorted_by_key_desc (symptom_score self it cur cands denied)
                       (filter (\<lambda>s. s \<notin> selected_symptoms) symptoms_list))
                     (\<lambda>remaining. Inr (backfill n remaining selected_symptoms))
              else Inr selected_symptoms)"
        by (cases p) simp
    qed
  qed
qed






section \<open>Properties of the entry point\<close>

text \<open>
  C10. A call of \<^verbatim>\<open>calculate_next_n_symptoms\<close> with \<^verbatim>\<open>denied_symptoms\<close> omitted or \<^verbatim>\<open>None\<close>
  returns what the call with the empty denied set returns (the same proposal or the same
  exception, and the same random state).
\<close>

theorem denied_none_is_empty:
  "calculate_next_n_symptoms np self it confirmed n method None =
   calculate_next_n_symptoms np self it confirmed n method (Some {})"
  by (simp add: calculate_next_n_symptoms_def)








text \<open>
  C5. When at least \<open>n\<close> symptoms are not confirmed, the call raises
  \<^verbatim>\<open>ValueError("Unknown method")\<close> exactly when the method is none of \<^verbatim>\<open>'greedy'\<close>,
  \<^verbatim>\<open>'exhaustive'\<close>, \<^verbatim>\<open>'genetic'\<close>; the exception is the result of the call, and no proposal is
  returned with it.
\<close>

theorem unknown_method_error:
  assumes "n \<le> int (card (all_symptoms self - confirmed))"
  shows "(calculate_next_n_symptoms np self it confirmed n method denied r =
            Inl (ValueError ''Unknown method'')) =
         (method \<notin> {''greedy'', ''exhaustive'', ''genetic''})"
proof -
  define pool where "pool = all_symptoms self - confirmed"
  define cands where "cands = get_candidate_diseases self confirmed"
  define den where "den = (case denied of None \<Rightarrow> {} | Some d \<Rightarrow> d)"
  have nlt: "\<not> int (card (all_symptoms self - confirmed)) < n" using assms by simp
  have not_unknown: "m r \<noteq> Inl (ValueError ''Unknown method'')"
    if "ryields selector_errors (\<lambda>_. True) m" for m :: "(symptom set, 'a) rand"
  proof -
    from that have "eyields selector_errors (\<lambda>(x, r'). True) (m r)" by (simp add: ryields_def)
    then show ?thesis by (cases "m r") (auto simp: selector_errors_def)
  qed
  show ?thesis
  proof (cases "method \<in> {''greedy'', ''exhaustive'', ''genetic''}")
    case False
    then show ?thesis
      using nlt by (simp add: calculate_next_n_symptoms_def Let_def rlift_def)
  next
    case True
    then consider "method = ''greedy''" | "method = ''exhaustive''" | "method = ''genetic''"
      by auto
    then have "ryields selector_errors (\<lambda>_. True)
        (calculate_next_n_symptoms np self it confirmed n method denied)"
    proof cases
      case 1
      have "ryields selector_errors (\<lambda>_. True)
          (rlift (greedy_selection self it confirmed cands pool n den) :: (symptom set, 'a) rand)"
        by (rule ryields_lift) (rule greedy_selection_any)
      then show ?thesis
        using nlt 1 by (simp add: calculate_next_n_symptoms_def Let_def pool_def cands_def den_def)
    next
      case 2
      have "ryields selector_errors (\<lambda>_. True)
          (rlift (exhaustive_search self it confirmed cands pool n den) :: (symptom set, 'a) rand)"
        by (rule ryields_lift) (rule exhaustive_search_any)
      then show ?thesis
        using nlt 2 by (simp add: calculate_next_n_symptoms_def Let_def pool_def cands_def den_def)
    next
      case 3
      have "ryields selector_errors (\<lambda>_. True)
          (genetic_algorithm np self it confirmed cands pool n den)"
        by (rule genetic_algorithm_any)
      then show ?thesis
        using nlt 3 by (simp add: calculate_next_n_symptoms_def Let_def pool_def cands_def den_def)
    qed
    from not_unknown [OF this] True show ?thesis by simp
  qed
qed

theorem unknown_method_error_witness:
  "(1::int) \<le> int (card (all_symptoms (DiagnosticSystem_init [(''A'', {''x''})]) - {})) \<and>
   calculate_next_n_symptoms counter_numpy (DiagnosticSystem_init [(''A'', {''x''})])
     sorted_list_of_set {} 1 ''annealing'' None 0 = Inl (ValueError ''Unknown method'') \<and>
   calculate_next_n_symptoms counter_numpy (DiagnosticSystem_init [(''A'', {''x''})])
     sorted_list_of_set {} 1 ''genetic'' None 0 \<noteq> Inl (ValueError ''Unknown method'')"
proof -
  have h: "(1::int) \<le> int (card (all_symptoms (DiagnosticSystem_init [(''A'', {''x''})]) - {}))"
    by (simp add: DiagnosticSystem_init_def)
  show ?thesis
    using h
      unknown_method_error [OF h, of counter_numpy sorted_list_of_set "''annealing''" None 0]
      unknown_method_error [OF h, of counter_numpy sorted_list_of_set "''genetic''" None 0]
    by simp
qed

end
